theory Spec2Isabelle
  imports Main "HOL-Library.Signed_Division" "HOL-Library.Monad_Syntax"
begin

section \<open>Values and C++ int arithmetic\<close>

text \<open>
  \<^verbatim>\<open>Value\<close> is an enumeration over \<^verbatim>\<open>int\<close> declared in \<^verbatim>\<open>types.h\<close>; every operator that
  \<^verbatim>\<open>movepick.h\<close> applies to it (\<^verbatim>\<open>*\<close>, \<^verbatim>\<open>/\<close>, \<^verbatim>\<open>-=\<close>, \<^verbatim>\<open>+=\<close>) converts to \<^verbatim>\<open>int\<close>, computes, and
  converts back. A value is modelled as a mathematical integer, and every \<^verbatim>\<open>int\<close> operation
  checks that its result is a 32-bit two's complement number: signed overflow has no defined
  result in C++, so it is the value \<open>None\<close> of the model. Division is the truncating
  \<open>sdiv\<close>.
\<close>

type_synonym Value = int

definition INT_MIN :: int where
  "INT_MIN = - (2 ^ 31)"

definition INT_MAX :: int where
  "INT_MAX = 2 ^ 31 - 1"

definition as_int :: "int \<Rightarrow> int option" where
  "as_int x = (if INT_MIN \<le> x \<and> x \<le> INT_MAX then Some x else None)"

definition int_abs :: "int \<Rightarrow> int option" where
  "int_abs x = as_int \<bar>x\<bar>"

definition int_mul :: "int \<Rightarrow> int \<Rightarrow> int option" where
  "int_mul x y = as_int (x * y)"

definition int_sub :: "int \<Rightarrow> int \<Rightarrow> int option" where
  "int_sub x y = as_int (x - y)"

definition int_add :: "int \<Rightarrow> int \<Rightarrow> int option" where
  "int_add x y = as_int (x + y)"

section \<open>Stats\<close>

text \<open>
  \<^verbatim>\<open>T table[PIECE_NB][SQUARE_NB]\<close>, the only member of \<^verbatim>\<open>Stats\<close>. \<^verbatim>\<open>Piece\<close> and \<^verbatim>\<open>Square\<close> are
  declared in \<^verbatim>\<open>types.h\<close>; they are the type parameters \<open>'p\<close> and \<open>'s\<close>, and the table is a
  total function on them.
\<close>

type_synonym ('p, 's, 'a) Stats = "'p \<Rightarrow> 's \<Rightarrow> 'a"

text \<open>\<^verbatim>\<open>static const Value Max = Value(1 << 28)\<close>\<close>

definition Max :: Value where
  "Max = 2 ^ 28"

text \<open>\<^verbatim>\<open>operator[]\<close> followed by the index of the square: \<^verbatim>\<open>table[pc][to]\<close>.\<close>

definition Stats_get :: "('p, 's, 'a) Stats \<Rightarrow> 'p \<Rightarrow> 's \<Rightarrow> 'a" where
  "Stats_get table pc to = table pc to"

text \<open>\<^verbatim>\<open>clear()\<close>: \<^verbatim>\<open>memset\<close> of the whole table with zero bytes.\<close>

definition Stats_clear :: "('p, 's, 'a::zero) Stats" where
  "Stats_clear = (\<lambda>pc to. 0)"

text \<open>\<^verbatim>\<open>void update(Piece pc, Square to, Move m) { table[pc][to] = m; }\<close>\<close>

definition Stats_update_move :: "('p, 's, 'a) Stats \<Rightarrow> 'p \<Rightarrow> 's \<Rightarrow> 'a \<Rightarrow> ('p, 's, 'a) Stats" where
  "Stats_update_move table pc to m = table(pc := (table pc)(to := m))"

text \<open>
  \<^verbatim>\<open>void update(Piece pc, Square to, Value v)\<close>, with the template parameter \<^verbatim>\<open>CM\<close> as first
  argument. The two compound assignments are the two stores of the model.
\<close>

definition Stats_update ::
  "bool \<Rightarrow> ('p, 's, Value) Stats \<Rightarrow> 'p \<Rightarrow> 's \<Rightarrow> Value \<Rightarrow> ('p, 's, Value) Stats option" where
  "Stats_update CM table pc to v = do {
     a \<leftarrow> int_abs v;
     if a \<ge> 324 then Some table
     else do {
       p \<leftarrow> int_mul (table pc to) a;
       d \<leftarrow> int_sub (table pc to) (p sdiv (if CM then 936 else 324));
       let table1 = table(pc := (table pc)(to := d));
       i \<leftarrow> int_mul v 32;
       s \<leftarrow> int_add (table1 pc to) i;
       Some (table1(pc := (table1 pc)(to := s)))
     }
   }"

section \<open>FromToStats\<close>

text \<open>
  \<^verbatim>\<open>Value table[COLOR_NB][SQUARE_NB][SQUARE_NB]\<close>. \<^verbatim>\<open>Color\<close> is the type parameter \<open>'c\<close>, a move is
  of the type parameter \<open>'m\<close>, and \<^verbatim>\<open>from_sq\<close> and \<^verbatim>\<open>to_sq\<close> of \<^verbatim>\<open>types.h\<close> are arguments of the
  functions that call them.
\<close>

type_synonym ('c, 's) FromToStats = "'c \<Rightarrow> 's \<Rightarrow> 's \<Rightarrow> Value"

definition FromToStats_get ::
  "('m \<Rightarrow> 's) \<Rightarrow> ('m \<Rightarrow> 's) \<Rightarrow> ('c, 's) FromToStats \<Rightarrow> 'c \<Rightarrow> 'm \<Rightarrow> Value" where
  "FromToStats_get from_sq to_sq table c m = table c (from_sq m) (to_sq m)"

definition FromToStats_clear :: "('c, 's) FromToStats" where
  "FromToStats_clear = (\<lambda>c f t. 0)"

definition FromToStats_update ::
  "('m \<Rightarrow> 's) \<Rightarrow> ('m \<Rightarrow> 's) \<Rightarrow> ('c, 's) FromToStats \<Rightarrow> 'c \<Rightarrow> 'm \<Rightarrow> Value
    \<Rightarrow> ('c, 's) FromToStats option" where
  "FromToStats_update from_sq to_sq table c m v = do {
     a \<leftarrow> int_abs v;
     if a \<ge> 324 then Some table
     else do {
       let f = from_sq m;
       let t = to_sq m;
       p \<leftarrow> int_mul (table c f t) a;
       d \<leftarrow> int_sub (table c f t) (p sdiv 324);
       let table1 = table(c := (table c)(f := (table c f)(t := d)));
       i \<leftarrow> int_mul v 32;
       s \<leftarrow> int_add (table1 c f t) i;
       Some (table1(c := (table1 c)(f := (table1 c f)(t := s))))
     }
   }"

text \<open>
  A sequence of calls of \<^verbatim>\<open>update\<close> on one table, each with its key and observed value; the
  run stops with \<open>None\<close> at the first call without a defined result.
\<close>

fun Stats_updates ::
  "bool \<Rightarrow> ('p, 's, Value) Stats \<Rightarrow> ('p \<times> 's \<times> Value) list \<Rightarrow> ('p, 's, Value) Stats option" where
  "Stats_updates CM table [] = Some table"
| "Stats_updates CM table ((pc, to, v) # us) =
     do { table1 \<leftarrow> Stats_update CM table pc to v; Stats_updates CM table1 us }"

fun FromToStats_updates ::
  "('m \<Rightarrow> 's) \<Rightarrow> ('m \<Rightarrow> 's) \<Rightarrow> ('c, 's) FromToStats \<Rightarrow> ('c \<times> 'm \<times> Value) list
    \<Rightarrow> ('c, 's) FromToStats option" where
  "FromToStats_updates from_sq to_sq table [] = Some table"
| "FromToStats_updates from_sq to_sq table ((c, m, v) # us) =
     do { table1 \<leftarrow> FromToStats_update from_sq to_sq table c m v;
          FromToStats_updates from_sq to_sq table1 us }"

text \<open>
  The rule of the specification for one entry, on mathematical integers: the stored value
  \<open>s\<close> becomes \<open>s - s * |v| / d + v * 32\<close>, the division truncating toward zero. The
  functions above are compared with it.
\<close>

definition decay_rule :: "int \<Rightarrow> int \<Rightarrow> int \<Rightarrow> int" where
  "decay_rule d s v = s - (s * \<bar>v\<bar>) sdiv d + v * 32"

section \<open>Stages and the dispatch table\<close>

datatype Stages =
    MAIN_SEARCH | GOOD_CAPTURES | KILLERS | QUIET | BAD_CAPTURES
  | EVASION | ALL_EVASIONS
  | QSEARCH_WITH_CHECKS | QCAPTURES_1 | CHECKS
  | QSEARCH_WITHOUT_CHECKS | QCAPTURES_2
  | PROBCUT | PROBCUT_CAPTURES
  | RECAPTURE | RECAPTURES
  | STOP

text \<open>
  The integer value of each enumerator: the first one is 0 and each following one is the
  value before it plus one, as no enumerator before \<^verbatim>\<open>STAGE_NB\<close> has an initialiser.
\<close>

fun Stages_value :: "Stages \<Rightarrow> nat" where
  "Stages_value MAIN_SEARCH = 0"
| "Stages_value GOOD_CAPTURES = 1"
| "Stages_value KILLERS = 2"
| "Stages_value QUIET = 3"
| "Stages_value BAD_CAPTURES = 4"
| "Stages_value EVASION = 5"
| "Stages_value ALL_EVASIONS = 6"
| "Stages_value QSEARCH_WITH_CHECKS = 7"
| "Stages_value QCAPTURES_1 = 8"
| "Stages_value CHECKS = 9"
| "Stages_value QSEARCH_WITHOUT_CHECKS = 10"
| "Stages_value QCAPTURES_2 = 11"
| "Stages_value PROBCUT = 12"
| "Stages_value PROBCUT_CAPTURES = 13"
| "Stages_value RECAPTURE = 14"
| "Stages_value RECAPTURES = 15"
| "Stages_value STOP = 16"

text \<open>\<^verbatim>\<open>STAGE_NB = STOP + 1\<close>: the number of stages, itself not a stage.\<close>

definition STAGE_NB :: nat where
  "STAGE_NB = Stages_value STOP + 1"

text \<open>The stage that an integer value denotes, if any (the member \<^verbatim>\<open>int stage\<close> read as a stage).\<close>

definition Stages_of_value :: "nat \<Rightarrow> Stages option" where
  "Stages_of_value n =
     find (\<lambda>s. Stages_value s = n)
       [MAIN_SEARCH, GOOD_CAPTURES, KILLERS, QUIET, BAD_CAPTURES, EVASION, ALL_EVASIONS,
        QSEARCH_WITH_CHECKS, QCAPTURES_1, CHECKS, QSEARCH_WITHOUT_CHECKS, QCAPTURES_2,
        PROBCUT, PROBCUT_CAPTURES, RECAPTURE, RECAPTURES, STOP]"

text \<open>
  \<^verbatim>\<open>typedef void (MovePicker::*Generator)(void)\<close>: a pointer to a member function. The only
  member functions of that type are the instances of the template \<^verbatim>\<open>generate_next_stage\<close>,
  one for each template argument.
\<close>

datatype Generator = generate_next_stage Stages

text \<open>\<^verbatim>\<open>constexpr Generator generators[STAGE_NB]\<close>, with its initialisers in their order.\<close>

definition generators :: "Generator list" where
  "generators =
    [ generate_next_stage MAIN_SEARCH,
      generate_next_stage GOOD_CAPTURES,
      generate_next_stage KILLERS,
      generate_next_stage QUIET,
      generate_next_stage BAD_CAPTURES,
      generate_next_stage EVASION,
      generate_next_stage ALL_EVASIONS,
      generate_next_stage QSEARCH_WITH_CHECKS,
      generate_next_stage QCAPTURES_1,
      generate_next_stage CHECKS,
      generate_next_stage QSEARCH_WITHOUT_CHECKS,
      generate_next_stage QCAPTURES_2,
      generate_next_stage PROBCUT,
      generate_next_stage PROBCUT_CAPTURES,
      generate_next_stage RECAPTURE,
      generate_next_stage RECAPTURES,
      generate_next_stage STOP ]"

text \<open>
  Modelled from the spec: the transition rule of the stage machine, whose code is in
  \<^verbatim>\<open>movepick.cpp\<close>. "Advancing from stage S always moves to the next integer value of the
  enumeration."
\<close>

definition advance :: "Stages \<Rightarrow> Stages option" where
  "advance s = Stages_of_value (Stages_value s + 1)"

text \<open>
  Modelled from the spec: the stage that follows each stage in its family, for the six
  families of stages in the words of the specification:
  \<^item> normal search: \<open>MAIN_SEARCH \<rightarrow> GOOD_CAPTURES \<rightarrow> KILLERS \<rightarrow> QUIET \<rightarrow> BAD_CAPTURES \<rightarrow> STOP\<close>;
  \<^item> check evasion: \<open>EVASION \<rightarrow> ALL_EVASIONS \<rightarrow> STOP\<close>;
  \<^item> quiescence with checks: \<open>QSEARCH_WITH_CHECKS \<rightarrow> QCAPTURES_1 \<rightarrow> CHECKS \<rightarrow> STOP\<close>;
  \<^item> quiescence without checks: \<open>QSEARCH_WITHOUT_CHECKS \<rightarrow> QCAPTURES_2 \<rightarrow> STOP\<close>;
  \<^item> delta pruning: \<open>PROBCUT \<rightarrow> PROBCUT_CAPTURES \<rightarrow> STOP\<close>;
  \<^item> recapture only: \<open>RECAPTURE \<rightarrow> RECAPTURES \<rightarrow> STOP\<close>;
  and \<open>STOP\<close> is absorbing.
\<close>

fun family_next :: "Stages \<Rightarrow> Stages" where
  "family_next MAIN_SEARCH = GOOD_CAPTURES"
| "family_next GOOD_CAPTURES = KILLERS"
| "family_next KILLERS = QUIET"
| "family_next QUIET = BAD_CAPTURES"
| "family_next BAD_CAPTURES = STOP"
| "family_next EVASION = ALL_EVASIONS"
| "family_next ALL_EVASIONS = STOP"
| "family_next QSEARCH_WITH_CHECKS = QCAPTURES_1"
| "family_next QCAPTURES_1 = CHECKS"
| "family_next CHECKS = STOP"
| "family_next QSEARCH_WITHOUT_CHECKS = QCAPTURES_2"
| "family_next QCAPTURES_2 = STOP"
| "family_next PROBCUT = PROBCUT_CAPTURES"
| "family_next PROBCUT_CAPTURES = STOP"
| "family_next RECAPTURE = RECAPTURES"
| "family_next RECAPTURES = STOP"
| "family_next STOP = STOP"

text \<open>The first stage of each family, where a picker starts.\<close>

definition family_head :: "Stages \<Rightarrow> bool" where
  "family_head s \<longleftrightarrow>
     s \<in> {MAIN_SEARCH, EVASION, QSEARCH_WITH_CHECKS, QSEARCH_WITHOUT_CHECKS, PROBCUT, RECAPTURE}"


section \<open>MovePicker\<close>

text \<open>
  \<^verbatim>\<open>movepick.h\<close> declares the class, its members and \<^verbatim>\<open>next_move\<close>; the bodies of the
  constructors, of \<^verbatim>\<open>next_move\<close> and of \<^verbatim>\<open>generate_next_stage\<close> are in \<^verbatim>\<open>movepick.cpp\<close>, and the
  types of moves and positions in \<^verbatim>\<open>types.h\<close>, \<^verbatim>\<open>movegen.h\<close> and \<^verbatim>\<open>position.h\<close>. This section
  models them from the specification.
\<close>

text \<open>
  Modelled from the spec: the type \<^verbatim>\<open>Move\<close> and the constant \<^verbatim>\<open>MOVE_NONE\<close> of \<^verbatim>\<open>types.h\<close>. A move
  is a number, and \<open>MOVE_NONE\<close> is the reserved "no move" sentinel, which \<^verbatim>\<open>next_move\<close>
  returns "when there are no moves left" and which stands for an absent hash move.
\<close>

type_synonym Move = nat

type_synonym Square = nat

definition MOVE_NONE :: Move where
  "MOVE_NONE = 0"

text \<open>
  Modelled from the spec: the generation modes of \<^verbatim>\<open>movegen.h\<close>, "captures-only, quiets-only,
  evasions, checks, all-pseudo-legal".
\<close>

datatype GenType = CAPTURES | QUIETS | QUIET_CHECKS | EVASIONS | NON_EVASIONS

text \<open>
  Modelled from the spec: the collaborators of the picker, \<^verbatim>\<open>Position\<close> of \<^verbatim>\<open>position.h\<close> and
  \<^verbatim>\<open>generate\<close> of \<^verbatim>\<open>movegen.h\<close>, for one position.
  \<^item> \<open>generate\<close>: the move-generation collaborator, "given a position and a generation mode
    returns a bulk sequence of pseudo-legal moves". The list is in the order in which the
    selection within a stage delivers the moves (scored, best first).
  \<^item> \<open>pseudo_legal\<close>: "whether a given move is currently pseudo-legal".
  \<^item> \<open>see\<close>: the static-exchange evaluation of a move; a capture is losing when it is
    negative.
  \<^item> \<open>dest_sq\<close>: the destination square of a move.
\<close>

record Position =
  generate :: "GenType \<Rightarrow> Move list"
  pseudo_legal :: "Move \<Rightarrow> bool"
  see :: "Move \<Rightarrow> Value"
  dest_sq :: "Move \<Rightarrow> Square"

text \<open>
  The members of \<^verbatim>\<open>class MovePicker\<close>. The search stack \<^verbatim>\<open>ss\<close> gives the two killer moves,
  which are the first two of the three slots \<open>killers\<close>; the third slot is the countermove.
  Modelled from the spec: the buffer \<^verbatim>\<open>moves[MAX_MOVES]\<close> with its pointers \<^verbatim>\<open>cur\<close>, \<^verbatim>\<open>endMoves\<close>
  and \<^verbatim>\<open>endBadCaptures\<close> is "two logical sequences": \<open>moves\<close>, the candidates of the current
  batch that have not been tried, first to last, and \<open>badCaptures\<close>, the deferred captures
  in the order of their deferral.
\<close>

record MovePicker =
  pos :: Position
  countermove :: Move
  depth :: int
  ttMove :: Move
  killers :: "Move list"
  recaptureSquare :: Square
  threshold :: Value
  stage :: Stages
  moves :: "Move list"
  badCaptures :: "Move list"

text \<open>
  Modelled from the spec: the batch of candidates with which a stage starts, a part of
  \<^verbatim>\<open>generate_next_stage\<close> and of the constructors in \<^verbatim>\<open>movepick.cpp\<close>. "Each state, upon entry,
  performs exactly one of three actions":
  \<^item> the first stage of a family has the hash move as its one candidate ("a recorded
    hash-table move to try first");
  \<^item> \<open>KILLERS\<close> has the killer and countermove slots, tried "one at a time without bulk
    generation"; a slot that repeats an earlier slot is dropped ("a killer move that
    happens to equal the countermove is skipped silently", "repeated killer");
  \<^item> \<open>BAD_CAPTURES\<close> has the deferred captures;
  \<^item> every other stage has the moves of the move-generation collaborator in one mode:
    captures for the capture stages, quiet moves for \<open>QUIET\<close>, evasions for \<open>ALL_EVASIONS\<close>,
    checks for \<open>CHECKS\<close>.
\<close>

fun stage_batch :: "MovePicker \<Rightarrow> Stages \<Rightarrow> Move list" where
  "stage_batch mp MAIN_SEARCH = [ttMove mp]"
| "stage_batch mp GOOD_CAPTURES = generate (pos mp) CAPTURES"
| "stage_batch mp KILLERS = rev (remdups (rev (killers mp)))"
| "stage_batch mp QUIET = generate (pos mp) QUIETS"
| "stage_batch mp BAD_CAPTURES = badCaptures mp"
| "stage_batch mp EVASION = [ttMove mp]"
| "stage_batch mp ALL_EVASIONS = generate (pos mp) EVASIONS"
| "stage_batch mp QSEARCH_WITH_CHECKS = [ttMove mp]"
| "stage_batch mp QCAPTURES_1 = generate (pos mp) CAPTURES"
| "stage_batch mp CHECKS = generate (pos mp) QUIET_CHECKS"
| "stage_batch mp QSEARCH_WITHOUT_CHECKS = [ttMove mp]"
| "stage_batch mp QCAPTURES_2 = generate (pos mp) CAPTURES"
| "stage_batch mp PROBCUT = [ttMove mp]"
| "stage_batch mp PROBCUT_CAPTURES = generate (pos mp) CAPTURES"
| "stage_batch mp RECAPTURE = [ttMove mp]"
| "stage_batch mp RECAPTURES = generate (pos mp) CAPTURES"
| "stage_batch mp STOP = []"

text \<open>
  Modelled from the spec: whether a candidate tried in a stage is returned, a part of
  \<^verbatim>\<open>next_move\<close> in \<^verbatim>\<open>movepick.cpp\<close>.
  \<^item> A recorded move (the hash move in the first stage of a family, a killer or the
    countermove in \<open>KILLERS\<close>) is returned "if still pseudo-legal and not a duplicate": a
    killer is a duplicate when it is the hash move or a move of the capture batch, which
    the stage before has gone through.
  \<^item> "The hash move and killer moves, once yielded from their dedicated slot, must be
    filtered out of any later bulk-generated batch."
  \<^item> In \<open>GOOD_CAPTURES\<close> a capture that the exchange evaluation judges losing is not returned.
  \<^item> \<open>PROBCUT_CAPTURES\<close> keeps the captures above the threshold, \<open>RECAPTURES\<close> "only moves to
    the recapture square".
  \<^item> \<open>BAD_CAPTURES\<close> returns every deferred capture, and \<open>STOP\<close> returns no candidate.
\<close>

fun yields :: "MovePicker \<Rightarrow> Stages \<Rightarrow> Move \<Rightarrow> bool" where
  "yields mp GOOD_CAPTURES m \<longleftrightarrow> m \<noteq> ttMove mp \<and> \<not> see (pos mp) m < 0"
| "yields mp KILLERS m \<longleftrightarrow>
     m \<noteq> MOVE_NONE \<and> m \<noteq> ttMove mp \<and> pseudo_legal (pos mp) m
     \<and> m \<notin> set (generate (pos mp) CAPTURES)"
| "yields mp QUIET m \<longleftrightarrow> m \<noteq> ttMove mp \<and> m \<notin> set (killers mp)"
| "yields mp BAD_CAPTURES m \<longleftrightarrow> True"
| "yields mp ALL_EVASIONS m \<longleftrightarrow> m \<noteq> ttMove mp"
| "yields mp QCAPTURES_1 m \<longleftrightarrow> m \<noteq> ttMove mp"
| "yields mp CHECKS m \<longleftrightarrow> m \<noteq> ttMove mp"
| "yields mp QCAPTURES_2 m \<longleftrightarrow> m \<noteq> ttMove mp"
| "yields mp PROBCUT_CAPTURES m \<longleftrightarrow> m \<noteq> ttMove mp \<and> see (pos mp) m > threshold mp"
| "yields mp RECAPTURES m \<longleftrightarrow> m \<noteq> ttMove mp \<and> dest_sq (pos mp) m = recaptureSquare mp"
| "yields mp STOP m \<longleftrightarrow> False"
| "yields mp first_stage m \<longleftrightarrow> m \<noteq> MOVE_NONE \<and> pseudo_legal (pos mp) m"

text \<open>
  Modelled from the spec: the deferral of bad captures, a part of \<^verbatim>\<open>next_move\<close> in
  \<^verbatim>\<open>movepick.cpp\<close>. A capture judged losing is "deferred: instead of being discarded, written
  into the tail of the move buffer and only surfaced in the dedicated \<open>BAD_CAPTURES\<close>
  stage"; any other candidate that is not returned is dropped.
\<close>

definition deferred :: "MovePicker \<Rightarrow> Move \<Rightarrow> bool" where
  "deferred mp m \<longleftrightarrow> m \<noteq> ttMove mp \<and> see (pos mp) m < 0"

definition skip_move :: "MovePicker \<Rightarrow> Move \<Rightarrow> Move list \<Rightarrow> MovePicker" where
  "skip_move mp m ms =
     (if stage mp = GOOD_CAPTURES \<and> deferred mp m
      then mp\<lparr>moves := ms, badCaptures := badCaptures mp @ [m]\<rparr>
      else mp\<lparr>moves := ms\<rparr>)"

text \<open>
  Modelled from the spec: the body of \<^verbatim>\<open>template<Stages> void generate_next_stage()\<close> in
  \<^verbatim>\<open>movepick.cpp\<close>, the routine that a \<open>Generator\<close> points to. The routine of stage \<open>s\<close> runs
  when the batch of \<open>s\<close> is exhausted: it moves the picker to the stage that follows \<open>s\<close> in
  its family and gives it the batch of that stage.
\<close>

fun Generator_call :: "Generator \<Rightarrow> MovePicker \<Rightarrow> MovePicker" where
  "Generator_call (generate_next_stage s) mp =
     mp\<lparr>stage := family_next s, moves := stage_batch mp (family_next s)\<rparr>"

text \<open>The number of stages from a stage to the end of its family.\<close>

fun stage_rank :: "Stages \<Rightarrow> nat" where
  "stage_rank MAIN_SEARCH = 5"
| "stage_rank GOOD_CAPTURES = 4"
| "stage_rank KILLERS = 3"
| "stage_rank QUIET = 2"
| "stage_rank BAD_CAPTURES = 1"
| "stage_rank EVASION = 2"
| "stage_rank ALL_EVASIONS = 1"
| "stage_rank QSEARCH_WITH_CHECKS = 3"
| "stage_rank QCAPTURES_1 = 2"
| "stage_rank CHECKS = 1"
| "stage_rank QSEARCH_WITHOUT_CHECKS = 2"
| "stage_rank QCAPTURES_2 = 1"
| "stage_rank PROBCUT = 2"
| "stage_rank PROBCUT_CAPTURES = 1"
| "stage_rank RECAPTURE = 2"
| "stage_rank RECAPTURES = 1"
| "stage_rank STOP = 0"

text \<open>
  Modelled from the spec: \<^verbatim>\<open>Move next_move()\<close>, whose body is in \<^verbatim>\<open>movepick.cpp\<close>. "Each call
  either pulls from the current batch or advances the stage machine, until a terminal
  stage yields no move, at which point a sentinel value is returned"; a candidate that is
  not returned "is skipped silently and the state machine proceeds to the next candidate
  within the same stage". The routine that advances is the entry of the dispatch table
  \<open>generators\<close> at the current stage. The function returns the move and the picker after
  the call.
\<close>

function next_move :: "MovePicker \<Rightarrow> Move \<times> MovePicker" where
  "next_move mp =
     (if stage mp = STOP then (MOVE_NONE, mp)
      else (case moves mp of
          [] \<Rightarrow> next_move (Generator_call (generators ! Stages_value (stage mp)) mp)
        | m # ms \<Rightarrow>
            if yields mp (stage mp) m then (m, mp\<lparr>moves := ms\<rparr>)
            else next_move (skip_move mp m ms)))"
  by pat_completeness auto

termination next_move
proof (relation "measures [\<lambda>mp. stage_rank (stage mp), \<lambda>mp. length (moves mp)]")
  show "wf (measures [\<lambda>mp. stage_rank (stage mp), \<lambda>mp. length (moves mp)])" by simp
next
  fix mp :: MovePicker
  assume "stage mp \<noteq> STOP" "moves mp = []"
  then show "(Generator_call (generators ! Stages_value (stage mp)) mp, mp)
      \<in> measures [\<lambda>mp. stage_rank (stage mp), \<lambda>mp. length (moves mp)]"
    by (cases "stage mp") (simp_all add: generators_def)
next
  fix mp :: MovePicker and m ms
  assume "moves mp = m # ms"
  then show "(skip_move mp m ms, mp)
      \<in> measures [\<lambda>mp. stage_rank (stage mp), \<lambda>mp. length (moves mp)]"
    by (simp add: skip_move_def)
qed

declare next_move.simps [simp del]

text \<open>
  Modelled from the spec: the three constructors of \<^verbatim>\<open>MovePicker\<close>, whose bodies are in
  \<^verbatim>\<open>movepick.cpp\<close>. They differ in the context they record (the threshold; the depth and
  the recapture square; the depth and the killers and countermove of the search stack)
  and in the family they select, "an initial stage based on node kind". The arguments are
  the position, the first stage \<open>s0\<close> of the selected family, the hash move, the two killer
  moves, the countermove, the depth, the recapture square and the threshold. The picker
  starts in \<open>s0\<close>, with the hash move as the candidate of that stage and nothing deferred.
\<close>

definition MovePicker_new ::
  "Position \<Rightarrow> Stages \<Rightarrow> Move \<Rightarrow> Move \<Rightarrow> Move \<Rightarrow> Move \<Rightarrow> int \<Rightarrow> Square \<Rightarrow> Value \<Rightarrow> MovePicker" where
  "MovePicker_new p s0 ttm k0 k1 cm d sq th =
     \<lparr>pos = p, countermove = cm, depth = d, ttMove = ttm, killers = [k0, k1, cm],
      recaptureSquare = sq, threshold = th, stage = s0, moves = [ttm], badCaptures = []\<rparr>"

text \<open>\<open>n\<close> successive calls of \<^verbatim>\<open>next_move\<close>: the moves returned, in order, and the picker after.\<close>

fun next_moves :: "nat \<Rightarrow> MovePicker \<Rightarrow> Move list \<times> MovePicker" where
  "next_moves 0 mp = ([], mp)"
| "next_moves (Suc n) mp =
     (case next_move mp of (m, mp1) \<Rightarrow>
        (case next_moves n mp1 of (ms, mp2) \<Rightarrow> (m # ms, mp2)))"

text \<open>
  What the move-generation collaborator is relied on for: no mode returns a move twice, and
  a capture is neither a quiet move nor a quiet check.
\<close>

definition generation_disjoint :: "Position \<Rightarrow> bool" where
  "generation_disjoint p \<longleftrightarrow>
     distinct (generate p CAPTURES) \<and> distinct (generate p QUIETS)
     \<and> distinct (generate p QUIET_CHECKS) \<and> distinct (generate p EVASIONS)
     \<and> set (generate p CAPTURES) \<inter> set (generate p QUIETS) = {}
     \<and> set (generate p CAPTURES) \<inter> set (generate p QUIET_CHECKS) = {}"

text \<open>
  The moves that a picker has still to return, in order: those of the current batch that
  the current stage returns, then those of the stages that follow in the family. It is the
  invariant of \<open>next_move\<close>: each call returns its head and leaves its tail.
\<close>

definition stage_yield :: "MovePicker \<Rightarrow> Stages \<Rightarrow> Move list" where
  "stage_yield mp s = filter (yields mp s) (stage_batch mp s)"

fun later_stages :: "MovePicker \<Rightarrow> Stages \<Rightarrow> Move list" where
  "later_stages mp MAIN_SEARCH =
     stage_yield mp GOOD_CAPTURES @ stage_yield mp KILLERS @ stage_yield mp QUIET
     @ badCaptures mp @ filter (deferred mp) (generate (pos mp) CAPTURES)"
| "later_stages mp GOOD_CAPTURES =
     stage_yield mp KILLERS @ stage_yield mp QUIET
     @ badCaptures mp @ filter (deferred mp) (moves mp)"
| "later_stages mp KILLERS = stage_yield mp QUIET @ badCaptures mp"
| "later_stages mp QUIET = badCaptures mp"
| "later_stages mp EVASION = stage_yield mp ALL_EVASIONS"
| "later_stages mp QSEARCH_WITH_CHECKS = stage_yield mp QCAPTURES_1 @ stage_yield mp CHECKS"
| "later_stages mp QCAPTURES_1 = stage_yield mp CHECKS"
| "later_stages mp QSEARCH_WITHOUT_CHECKS = stage_yield mp QCAPTURES_2"
| "later_stages mp PROBCUT = stage_yield mp PROBCUT_CAPTURES"
| "later_stages mp RECAPTURE = stage_yield mp RECAPTURES"
| "later_stages mp last_stage = []"

definition remaining :: "MovePicker \<Rightarrow> Move list" where
  "remaining mp = filter (yields mp (stage mp)) (moves mp) @ later_stages mp (stage mp)"

text \<open>
  A position for the examples: three captures, of which 11 loses material, and four quiet
  moves, of which 21 gives check.
\<close>

definition example_position :: Position where
  "example_position =
     \<lparr>generate = (\<lambda>g. case g of CAPTURES \<Rightarrow> [10, 11, 12] | QUIETS \<Rightarrow> [20, 21, 22, 23]
         | QUIET_CHECKS \<Rightarrow> [21] | EVASIONS \<Rightarrow> [10, 20]
         | NON_EVASIONS \<Rightarrow> [10, 11, 12, 20, 21, 22, 23]),
      pseudo_legal = (\<lambda>m. m \<in> {10, 11, 12, 20, 21, 22, 23}),
      see = (\<lambda>m. if m = 11 then - 100 else 0),
      dest_sq = (\<lambda>m. m mod 64)\<rparr>"

section \<open>Properties of the statistics tables\<close>

lemma sdiv_nonneg: "0 \<le> x \<Longrightarrow> 0 < d \<Longrightarrow> x sdiv d = x div (d::int)"
  by (simp add: signed_divide_int_def sgn_if)

lemma sdiv_neg: "x \<le> 0 \<Longrightarrow> 0 < d \<Longrightarrow> x sdiv d = - ((- x) div (d::int))"
  by (simp add: signed_divide_int_def sgn_if)

lemma decay_quot:
  fixes s a d :: int
  assumes "0 \<le> s" "0 \<le> a" "a < d"
  shows "0 \<le> (s * a) div d" and "(s * a) div d \<le> s"
proof -
  have d: "0 < d" using assms by linarith
  show "0 \<le> (s * a) div d" using assms d by (simp add: pos_imp_zdiv_nonneg_iff)
  have "s * a \<le> s * d" using assms by (intro mult_left_mono) auto
  then have "(s * a) div d \<le> (s * d) div d" using d by (intro zdiv_mono1) auto
  then show "(s * a) div d \<le> s" using d by simp
qed

text \<open>
  The value stored between the two assignments of an update is no larger in magnitude than
  the value before.
\<close>

lemma decay_intermediate:
  fixes s v d :: int
  assumes "\<bar>v\<bar> < d"
  shows "\<bar>s - (s * \<bar>v\<bar>) sdiv d\<bar> \<le> \<bar>s\<bar>"
proof -
  have d: "0 < d" using assms by linarith
  have a: "0 \<le> \<bar>v\<bar>" by simp
  show ?thesis
  proof (cases "0 \<le> s")
    case True
    then have "0 \<le> s * \<bar>v\<bar>" by simp
    then have "(s * \<bar>v\<bar>) sdiv d = (s * \<bar>v\<bar>) div d" using d by (rule sdiv_nonneg)
    then show ?thesis using decay_quot [OF True a assms] True by simp
  next
    case False
    then have n: "0 \<le> - s" by simp
    have "s * \<bar>v\<bar> \<le> 0" using False by (simp add: mult_le_0_iff)
    then have "(s * \<bar>v\<bar>) sdiv d = - ((- (s * \<bar>v\<bar>)) div d)" using d by (rule sdiv_neg)
    then have "(s * \<bar>v\<bar>) sdiv d = - (((- s) * \<bar>v\<bar>) div d)" by simp
    then show ?thesis using decay_quot [OF n a assms] False by simp
  qed
qed

lemma decay_upper:
  fixes s a d :: int
  assumes "0 \<le> s" "0 \<le> a" "a < d" "s \<le> 32 * d"
  shows "s - (s * a) div d + a * 32 \<le> 32 * d"
proof -
  have d: "0 < d" using assms by linarith
  define q where "q = (s * a) div d"
  have "s * a = d * q + (s * a) mod d" by (simp add: q_def)
  moreover have "(s * a) mod d < d" using d by simp
  ultimately have 1: "s * a < d * q + d" by linarith
  have "s * (d - a) \<le> (32 * d) * (d - a)" using assms by (intro mult_right_mono) auto
  then have 2: "s * d - s * a \<le> 32 * d * d - 32 * d * a" by (simp add: algebra_simps)
  have "d * (s - q + a * 32) < d * (32 * d + 1)"
    using 1 2 by (simp add: algebra_simps)
  then have "s - q + a * 32 < 32 * d + 1" using d by (simp add: mult_less_cancel_left_pos)
  then show ?thesis by (simp add: q_def)
qed

lemma decay_neg: "0 < d \<Longrightarrow> decay_rule d (- s) (- v) = - decay_rule d s v"
  by (simp add: decay_rule_def signed_divide_int_def sgn_if)

lemma decay_bound_pos:
  assumes "0 \<le> s" "s \<le> 32 * d" "\<bar>v\<bar> < d"
  shows "\<bar>decay_rule d s v\<bar> \<le> 32 * d"
proof -
  define a where "a = \<bar>v\<bar>"
  have d: "0 < d" using assms by linarith
  have a: "0 \<le> a" "a < d" using assms by (simp_all add: a_def)
  have sa: "0 \<le> s * a" using assms a by simp
  have q: "(s * a) sdiv d = (s * a) div d" using sa d by (rule sdiv_nonneg)
  have b: "0 \<le> (s * a) div d" "(s * a) div d \<le> s"
    using decay_quot [OF assms(1) a] by simp_all
  have u: "s - (s * a) div d + a * 32 \<le> 32 * d"
    using assms(1) a assms(2) by (rule decay_upper)
  have e: "decay_rule d s v = s - (s * a) div d + v * 32"
    by (simp add: decay_rule_def a_def [symmetric] q)
  have "v = a \<or> v = - a" by (auto simp: a_def)
  then show ?thesis using b u a assms(2) unfolding e by auto
qed

lemma decay_bound:
  assumes "\<bar>s\<bar> \<le> 32 * d" "\<bar>v\<bar> < d"
  shows "\<bar>decay_rule d s v\<bar> \<le> 32 * d"
proof (cases "0 \<le> s")
  case True
  with assms show ?thesis by (intro decay_bound_pos) auto
next
  case False
  have d: "0 < d" using assms by linarith
  have "\<bar>decay_rule d (- s) (- v)\<bar> \<le> 32 * d"
    using False assms by (intro decay_bound_pos) auto
  then show ?thesis using d by (simp add: decay_neg)
qed

lemma as_int_Some: "\<bar>x\<bar> < 2 ^ 31 \<Longrightarrow> as_int x = Some x"
  by (auto simp: as_int_def INT_MIN_def INT_MAX_def)

lemma abs_sdiv_le: "0 < d \<Longrightarrow> \<bar>x sdiv d\<bar> \<le> \<bar>x\<bar>" for x d :: int
proof -
  assume d: "0 < d"
  define y where "y = \<bar>x\<bar>"
  have y: "0 \<le> y" by (simp add: y_def)
  have "y div d \<le> y div 1" using d y by (intro zdiv_mono2) auto
  then have 1: "y div d \<le> y" by simp
  have 2: "0 \<le> y div d" using d y by (simp add: pos_imp_zdiv_nonneg_iff)
  have "\<bar>x sdiv d\<bar> = \<bar>sgn x\<bar> * \<bar>y div d\<bar>"
    using d by (simp add: signed_divide_int_def abs_mult y_def)
  also have "\<dots> \<le> 1 * \<bar>y div d\<bar>" by (intro mult_right_mono) (auto simp: sgn_if)
  finally show ?thesis using 1 2 by (simp add: y_def)
qed

lemma entry_steps:
  assumes v: "\<bar>v\<bar> < 324" and s: "\<bar>s\<bar> \<le> 2 ^ 22" and d: "d = 324 \<or> d = 936"
  shows "int_abs v = Some \<bar>v\<bar>"
    and "int_mul s \<bar>v\<bar> = Some (s * \<bar>v\<bar>)"
    and "int_sub s ((s * \<bar>v\<bar>) sdiv d) = Some (s - (s * \<bar>v\<bar>) sdiv d)"
    and "int_mul v 32 = Some (v * 32)"
    and "int_add (s - (s * \<bar>v\<bar>) sdiv d) (v * 32) = Some (decay_rule d s v)"
proof -
  have dpos: "0 < d" using d by auto
  show "int_abs v = Some \<bar>v\<bar>" using v by (simp add: int_abs_def as_int_Some)
  have "\<bar>s\<bar> * \<bar>v\<bar> \<le> 2 ^ 22 * 323"
    using v s by (intro mult_mono) auto
  then have p: "\<bar>s * \<bar>v\<bar>\<bar> \<le> 2 ^ 22 * 323" by (simp add: abs_mult)
  then show "int_mul s \<bar>v\<bar> = Some (s * \<bar>v\<bar>)"
    by (simp add: int_mul_def as_int_Some)
  have q: "\<bar>(s * \<bar>v\<bar>) sdiv d\<bar> \<le> 2 ^ 22 * 323"
    using abs_sdiv_le [OF dpos, of "s * \<bar>v\<bar>"] p by linarith
  have "\<bar>s - (s * \<bar>v\<bar>) sdiv d\<bar> \<le> \<bar>s\<bar> + \<bar>(s * \<bar>v\<bar>) sdiv d\<bar>" by linarith
  then have r: "\<bar>s - (s * \<bar>v\<bar>) sdiv d\<bar> \<le> 2 ^ 22 + 2 ^ 22 * 323" using s q by linarith
  then show "int_sub s ((s * \<bar>v\<bar>) sdiv d) = Some (s - (s * \<bar>v\<bar>) sdiv d)"
    by (simp add: int_sub_def as_int_Some)
  show "int_mul v 32 = Some (v * 32)" using v by (simp add: int_mul_def as_int_Some)
  have "\<bar>s - (s * \<bar>v\<bar>) sdiv d + v * 32\<bar> \<le> 2 ^ 22 + 2 ^ 22 * 323 + 324 * 32"
    using r v by linarith
  then show "int_add (s - (s * \<bar>v\<bar>) sdiv d) (v * 32) = Some (decay_rule d s v)"
    by (simp add: int_add_def as_int_Some decay_rule_def)
qed

lemma Stats_update_eval:
  assumes "\<bar>v\<bar> < 324" and "\<bar>table pc to\<bar> \<le> 2 ^ 22"
  shows "Stats_update CM table pc to v =
    Some (table(pc := (table pc)(to := decay_rule (if CM then 936 else 324) (table pc to) v)))"
proof -
  have d: "(if CM then 936 else 324) = (324::int) \<or> (if CM then 936 else 324) = (936::int)"
    by simp
  note st = entry_steps [OF assms d]
  show ?thesis using assms(1) by (simp add: Stats_update_def st)
qed

lemma FromToStats_update_eval:
  assumes "\<bar>v\<bar> < 324" and "\<bar>table c (from_sq m) (to_sq m)\<bar> \<le> 2 ^ 22"
  shows "FromToStats_update from_sq to_sq table c m v =
    Some (table(c := (table c)(from_sq m := (table c (from_sq m))(to_sq m :=
      decay_rule 324 (table c (from_sq m) (to_sq m)) v))))"
proof -
  have d: "324 = (324::int) \<or> 324 = (936::int)" by simp
  note st = entry_steps [OF assms d]
  show ?thesis using assms(1) by (simp add: FromToStats_update_def Let_def st)
qed

lemma decay_bound_divisor:
  assumes "\<bar>s\<bar> \<le> 32 * d" "\<bar>v\<bar> < 324" "d = 324 \<or> d = 936"
  shows "\<bar>decay_rule d s v\<bar> \<le> 32 * d"
  using assms by (intro decay_bound) auto

lemma Stats_update_invariant:
  assumes v: "\<bar>v\<bar> < 324" and inv: "\<forall>pc to. \<bar>table pc to\<bar> \<le> 32 * (if CM then 936 else 324)"
  shows "\<exists>table1. Stats_update CM table pc to v = Some table1
           \<and> (\<forall>pc to. \<bar>table1 pc to\<bar> \<le> 32 * (if CM then 936 else 324))"
proof -
  define d :: int where "d = (if CM then 936 else 324)"
  have d: "d = 324 \<or> d = 936" by (simp add: d_def)
  have s: "\<bar>table pc to\<bar> \<le> 32 * d" using inv by (simp add: d_def)
  then have "\<bar>table pc to\<bar> \<le> 2 ^ 22" using d by auto
  then have e: "Stats_update CM table pc to v =
      Some (table(pc := (table pc)(to := decay_rule d (table pc to) v)))"
    using v unfolding d_def by (rule Stats_update_eval [rotated])
  have "\<bar>decay_rule d (table pc to) v\<bar> \<le> 32 * d" using s v d by (rule decay_bound_divisor)
  moreover have "\<forall>pc to. \<bar>table pc to\<bar> \<le> 32 * d" using inv by (simp add: d_def)
  ultimately have "\<forall>pc' to'.
      \<bar>(table(pc := (table pc)(to := decay_rule d (table pc to) v))) pc' to'\<bar> \<le> 32 * d"
    by simp
  then show ?thesis unfolding e d_def by blast
qed

lemma Stats_updates_invariant:
  assumes "\<forall>(pc, to, v) \<in> set us. \<bar>v\<bar> < 324"
    and "\<forall>pc to. \<bar>table pc to\<bar> \<le> 32 * (if CM then 936 else 324)"
  shows "\<exists>table1. Stats_updates CM table us = Some table1
           \<and> (\<forall>pc to. \<bar>table1 pc to\<bar> \<le> 32 * (if CM then 936 else 324))"
  using assms
proof (induction us arbitrary: table)
  case Nil
  then show ?case by simp
next
  case (Cons u us)
  obtain pc to v where u: "u = (pc, to, v)" by (cases u)
  have v: "\<bar>v\<bar> < 324" using Cons.prems(1) u by simp
  obtain table1 where 1: "Stats_update CM table pc to v = Some table1"
    and 2: "\<forall>pc to. \<bar>table1 pc to\<bar> \<le> 32 * (if CM then 936 else 324)"
    using Stats_update_invariant [OF v Cons.prems(2), of pc to] by blast
  have "\<forall>(pc, to, v) \<in> set us. \<bar>v\<bar> < 324" using Cons.prems(1) by simp
  from Cons.IH [OF this 2] show ?case by (simp add: u 1)
qed

lemma FromToStats_update_invariant:
  assumes v: "\<bar>v\<bar> < 324" and inv: "\<forall>c f t. \<bar>table c f t\<bar> \<le> 32 * 324"
  shows "\<exists>table1. FromToStats_update from_sq to_sq table c m v = Some table1
           \<and> (\<forall>c f t. \<bar>table1 c f t\<bar> \<le> 32 * 324)"
proof -
  have s: "\<bar>table c (from_sq m) (to_sq m)\<bar> \<le> 32 * 324" using inv by blast
  then have "\<bar>table c (from_sq m) (to_sq m)\<bar> \<le> 2 ^ 22" by simp
  with v have e: "FromToStats_update from_sq to_sq table c m v =
    Some (table(c := (table c)(from_sq m := (table c (from_sq m))(to_sq m :=
      decay_rule 324 (table c (from_sq m) (to_sq m)) v))))"
    by (rule FromToStats_update_eval)
  have "\<bar>decay_rule 324 (table c (from_sq m) (to_sq m)) v\<bar> \<le> 32 * 324"
    using s v by (intro decay_bound_divisor) auto
  then have "\<forall>c' f' t'. \<bar>(table(c := (table c)(from_sq m := (table c (from_sq m))(to_sq m :=
      decay_rule 324 (table c (from_sq m) (to_sq m)) v)))) c' f' t'\<bar> \<le> 32 * 324"
    using inv by simp
  then show ?thesis unfolding e by blast
qed

lemma FromToStats_updates_invariant:
  assumes "\<forall>(c, m, v) \<in> set us. \<bar>v\<bar> < 324"
    and "\<forall>c f t. \<bar>table c f t\<bar> \<le> 32 * 324"
  shows "\<exists>table1. FromToStats_updates from_sq to_sq table us = Some table1
           \<and> (\<forall>c f t. \<bar>table1 c f t\<bar> \<le> 32 * 324)"
  using assms
proof (induction us arbitrary: table)
  case Nil
  then show ?case by simp
next
  case (Cons u us)
  obtain c m v where u: "u = (c, m, v)" by (cases u)
  have v: "\<bar>v\<bar> < 324" using Cons.prems(1) u by simp
  obtain table1 where 1: "FromToStats_update from_sq to_sq table c m v = Some table1"
    and 2: "\<forall>c f t. \<bar>table1 c f t\<bar> \<le> 32 * 324"
    using FromToStats_update_invariant [OF v Cons.prems(2), of from_sq to_sq c m] by blast
  have "\<forall>(c, m, v) \<in> set us. \<bar>v\<bar> < 324" using Cons.prems(1) by simp
  from Cons.IH [OF this 2] show ?case by (simp add: u 1)
qed

lemma Stats_clear_invariant:
  "\<forall>pc to. \<bar>Stats_clear pc to :: Value\<bar> \<le> 32 * (if CM then 936 else 324)"
  by (simp add: Stats_clear_def)

lemma FromToStats_clear_invariant: "\<forall>c f t. \<bar>FromToStats_clear c f t\<bar> \<le> 32 * 324"
  by (simp add: FromToStats_clear_def)

text \<open>
  Claim C1. An update with an observed value \<open>v\<close>, \<open>|v| < 324\<close>, turns the stored value \<open>s\<close> of
  the entry into \<open>s - s * |v| / d + v * 32\<close> with the division truncating toward zero, where
  \<open>d\<close> is 324 for a plain table and for a from-to table and 936 for a countermove table, and
  leaves every other entry as it was. The stored value is taken within \<open>\<plusminus> 2 ^ 22\<close>, where
  no \<^verbatim>\<open>int\<close> operation of the update overflows; every value that updates can produce from
  a cleared table is in that range (it stays within \<open>32 * d\<close>).
\<close>

theorem update_rule:
  "\<bar>v\<bar> < 324 \<Longrightarrow> \<bar>table pc to\<bar> \<le> 2 ^ 22 \<Longrightarrow> \<bar>ft c (from_sq m) (to_sq m)\<bar> \<le> 2 ^ 22 \<Longrightarrow>
     Stats_update CM table pc to v =
       Some (table(pc := (table pc)(to :=
         table pc to - (table pc to * \<bar>v\<bar>) sdiv (if CM then 936 else 324) + v * 32)))
   \<and> FromToStats_update from_sq to_sq ft c m v =
       Some (ft(c := (ft c)(from_sq m := (ft c (from_sq m))(to_sq m :=
         ft c (from_sq m) (to_sq m) - (ft c (from_sq m) (to_sq m) * \<bar>v\<bar>) sdiv 324 + v * 32))))"
  by (simp add: Stats_update_eval FromToStats_update_eval decay_rule_def)

theorem update_rule_witness:
  "\<bar>- 50 :: int\<bar> < 324 \<and> \<bar>(\<lambda>pc to. 3200 :: int) (1::nat) (2::nat)\<bar> \<le> 2 ^ 22
   \<and> Stats_update True (\<lambda>pc to. 3200) (1::nat) (2::nat) (- 50) =
        Some ((\<lambda>pc to. 3200)(1 := ((\<lambda>to. 3200)(2 := 1430))))
   \<and> FromToStats_update fst snd (\<lambda>c f t. 3200) (0::nat) (12::nat, 28::nat) (- 50) =
        Some ((\<lambda>c f t. 3200)(0 := (\<lambda>f t. 3200)(12 := (\<lambda>t. 3200)(28 := 1107))))"
  using update_rule [of "- 50" "\<lambda>pc to. 3200" "1::nat" "2::nat" "\<lambda>c f t. 3200" "0::nat" fst
      "(12::nat, 28::nat)" snd True]
  by (simp add: signed_divide_int_def)

text \<open>
  Claim C2. From the cleared table, after any number of the calls of any sequence of updates
  whose observed values are all of magnitude below 324, every call had a defined result
  and every stored entry is of magnitude strictly below \<open>Max = 2 ^ 28\<close>; for the tables of
  both flavours and for the from-to table.
\<close>

theorem stored_value_bounded:
  assumes "\<forall>(pc, to, v) \<in> set us. \<bar>v\<bar> < 324" and "\<forall>(c, m, v) \<in> set fs. \<bar>v\<bar> < 324"
  shows "(\<exists>table. Stats_updates CM Stats_clear (take n us) = Some table
            \<and> (\<forall>pc to. \<bar>Stats_get table pc to\<bar> < Max))
       \<and> (\<exists>table. FromToStats_updates from_sq to_sq FromToStats_clear (take n fs) = Some table
            \<and> (\<forall>c m. \<bar>FromToStats_get from_sq to_sq table c m\<bar> < Max))"
proof
  have "\<forall>(pc, to, v) \<in> set (take n us). \<bar>v\<bar> < 324"
    using assms(1) by (auto dest: in_set_takeD)
  from Stats_updates_invariant [OF this Stats_clear_invariant, of CM]
  obtain table where 1: "Stats_updates CM Stats_clear (take n us) = Some table"
    and 2: "\<forall>pc to. \<bar>table pc to\<bar> \<le> 32 * (if CM then 936 else 324)"
    by blast
  have "\<bar>table pc to\<bar> < Max" for pc to
    using 2 [rule_format, of pc to] by (simp add: Max_def split: if_splits)
  with 1 show "\<exists>table. Stats_updates CM Stats_clear (take n us) = Some table
            \<and> (\<forall>pc to. \<bar>Stats_get table pc to\<bar> < Max)"
    by (simp add: Stats_get_def)
next
  have "\<forall>(c, m, v) \<in> set (take n fs). \<bar>v\<bar> < 324"
    using assms(2) by (auto dest: in_set_takeD)
  from FromToStats_updates_invariant [OF this FromToStats_clear_invariant, of from_sq to_sq]
  obtain table
    where 1: "FromToStats_updates from_sq to_sq FromToStats_clear (take n fs) = Some table"
    and 2: "\<forall>c f t. \<bar>table c f t\<bar> \<le> 32 * 324"
    by blast
  have "\<bar>table c f t\<bar> < Max" for c f t
    using 2 [rule_format, of c f t] by (simp add: Max_def)
  with 1 show "\<exists>table. FromToStats_updates from_sq to_sq FromToStats_clear (take n fs) = Some table
            \<and> (\<forall>c m. \<bar>FromToStats_get from_sq to_sq table c m\<bar> < Max)"
    by (simp add: FromToStats_get_def)
qed

theorem stored_value_bounded_witness:
  "(\<exists>table. Stats_updates False Stats_clear (take 2 [(1::nat, 2::nat, 100), (1, 2, - 50)])
          = Some table \<and> (\<forall>pc to. \<bar>Stats_get table pc to\<bar> < Max))
   \<and> (\<exists>table. FromToStats_updates fst snd FromToStats_clear
          (take 1 [(0::nat, (12::nat, 28::nat), 323)]) = Some table
        \<and> (\<forall>c m. \<bar>FromToStats_get fst snd table c m\<bar> < Max))"
  using stored_value_bounded [of "[(1::nat, 2::nat, 100), (1, 2, - 50)]"
      "[(0::nat, (12::nat, 28::nat), 323)]" False 2 fst snd]
  by simp

text \<open>
  Claim C3. An update with an observed value \<open>v\<close>, \<open>|v| \<ge> 324\<close>, returns normally and leaves
  the whole table as it was, whatever the table holds and whatever the key is. The magnitude
  of \<open>v\<close> is an \<^verbatim>\<open>int\<close>: \<^verbatim>\<open>abs\<close> has no defined result at the one value \<open>- 2 ^ 31\<close>.
\<close>

theorem outlier_update_is_noop:
  "324 \<le> \<bar>v\<bar> \<Longrightarrow> \<bar>v\<bar> \<le> INT_MAX \<Longrightarrow>
     Stats_update CM table pc to v = Some table
   \<and> FromToStats_update from_sq to_sq ft c m v = Some ft"
  by (simp add: Stats_update_def FromToStats_update_def int_abs_def as_int_def INT_MIN_def
      INT_MAX_def)

theorem outlier_update_is_noop_witness:
  "324 \<le> \<bar>324 :: int\<bar> \<and> \<bar>324 :: int\<bar> \<le> INT_MAX
   \<and> Stats_update True (\<lambda>pc to. 3200) (1::nat) (2::nat) 324 = Some (\<lambda>pc to. 3200)
   \<and> FromToStats_update fst snd (\<lambda>c f t. 7) (0::nat) (12::nat, 28::nat) 324 = Some (\<lambda>c f t. 7)"
  using outlier_update_is_noop [of 324 True "\<lambda>pc to. 3200" "1::nat" "2::nat" fst snd
      "\<lambda>c f t. 7" "0::nat" "(12::nat, 28::nat)"]
  by (simp add: INT_MAX_def)

text \<open>
  Claim C4. From the cleared plain table, for any key, an update with the value 100 stores
  3200, and a following update of the same key with the value \<open>- 50\<close> stores 1107.
\<close>

theorem update_scenario:
  "map_option (\<lambda>table. Stats_get table pc to) (Stats_updates False Stats_clear [(pc, to, 100)])
     = Some 3200
   \<and> map_option (\<lambda>table. Stats_get table pc to)
       (Stats_updates False Stats_clear [(pc, to, 100), (pc, to, - 50)]) = Some 1107"
  by (simp add: Stats_update_eval Stats_clear_def Stats_get_def decay_rule_def signed_divide_int_def)

text \<open>
  The same two updates on a countermove table, whose divisor is 936, store 3200 and then
  1430.
\<close>

lemma update_scenario_countermove:
  "map_option (\<lambda>table. Stats_get table pc to)
       (Stats_updates True Stats_clear [(pc, to, 100), (pc, to, - 50)]) = Some 1430"
  by (simp add: Stats_update_eval Stats_clear_def Stats_get_def decay_rule_def
      signed_divide_int_def)

text \<open>
  Claim C9. A table is keyed by the piece and the destination square only: after an update
  for the piece \<open>pc\<close> and the destination of a move \<open>m1\<close>, with a move or with a value, the
  lookup for \<open>pc\<close> and the destination of any move \<open>m2\<close> with the same destination reads
  the new entry, whatever the origins of \<open>m1\<close> and \<open>m2\<close> are.
\<close>

theorem keyed_by_piece_and_destination:
  "to_sq m2 = to_sq m1 \<Longrightarrow> \<bar>v\<bar> < 324 \<Longrightarrow> \<bar>table pc (to_sq m1)\<bar> \<le> 2 ^ 22 \<Longrightarrow>
     Stats_get (Stats_update_move mt pc (to_sq m1) x) pc (to_sq m2) = x
   \<and> map_option (\<lambda>table1. Stats_get table1 pc (to_sq m2))
        (Stats_update CM table pc (to_sq m1) v)
       = Some (table pc (to_sq m1)
           - (table pc (to_sq m1) * \<bar>v\<bar>) sdiv (if CM then 936 else 324) + v * 32)"
  by (simp add: Stats_update_eval Stats_get_def Stats_update_move_def decay_rule_def)

theorem keyed_by_piece_and_destination_witness:
  "snd (20::nat, 28::nat) = snd (12::nat, 28::nat) \<and> \<bar>100 :: int\<bar> < 324
   \<and> \<bar>(\<lambda>pc to. 0 :: int) (1::nat) (snd (12::nat, 28::nat))\<bar> \<le> 2 ^ 22
   \<and> Stats_get (Stats_update_move (\<lambda>pc to. 0 :: nat) (1::nat) (snd (12::nat, 28::nat)) 77)
        1 (snd (20::nat, 28::nat)) = 77
   \<and> map_option (\<lambda>table1. Stats_get table1 1 (snd (20::nat, 28::nat)))
        (Stats_update False (\<lambda>pc to. 0) (1::nat) (snd (12::nat, 28::nat)) 100) = Some 3200"
  using keyed_by_piece_and_destination [of snd "(20::nat, 28::nat)" "(12::nat, 28::nat)" 100
      "\<lambda>pc to. 0" "1::nat" "\<lambda>pc to. 0 :: nat" 77 False]
  by (simp add: signed_divide_int_def)

subsection \<open>Stages\<close>

lemma Stages_of_value_inverse: "Stages_of_value (Stages_value s) = Some s"
  by (cases s) (simp_all add: Stages_of_value_def)

lemma advance_simps:
  "advance MAIN_SEARCH = Some GOOD_CAPTURES"
  "advance GOOD_CAPTURES = Some KILLERS"
  "advance KILLERS = Some QUIET"
  "advance QUIET = Some BAD_CAPTURES"
  "advance BAD_CAPTURES = Some EVASION"
  "advance EVASION = Some ALL_EVASIONS"
  "advance ALL_EVASIONS = Some QSEARCH_WITH_CHECKS"
  "advance QSEARCH_WITH_CHECKS = Some QCAPTURES_1"
  "advance QCAPTURES_1 = Some CHECKS"
  "advance CHECKS = Some QSEARCH_WITHOUT_CHECKS"
  "advance QSEARCH_WITHOUT_CHECKS = Some QCAPTURES_2"
  "advance QCAPTURES_2 = Some PROBCUT"
  "advance PROBCUT = Some PROBCUT_CAPTURES"
  "advance PROBCUT_CAPTURES = Some RECAPTURE"
  "advance RECAPTURE = Some RECAPTURES"
  "advance RECAPTURES = Some STOP"
  "advance STOP = None"
  by (simp_all add: advance_def Stages_of_value_def)

text \<open>
  Claim C8, as stated: advancing from a stage gives the stage with the next integer value,
  and that stage is the next stage of the family, the normal search ending
  \<open>BAD_CAPTURES \<rightarrow> STOP\<close>. It fails at \<open>BAD_CAPTURES\<close>, whose value is 4: the stage of value 5 is
  \<open>EVASION\<close>, and \<open>STOP\<close> has the value 16.
\<close>

theorem advance_from_BAD_CAPTURES:
  "advance BAD_CAPTURES = Some EVASION \<and> family_next BAD_CAPTURES = STOP
   \<and> advance BAD_CAPTURES \<noteq> Some (family_next BAD_CAPTURES)"
  by (simp add: advance_simps)

text \<open>
  Claim C8, amended. From a stage that is not the last of its family, the stage with the
  next integer value is the next stage of the family; so the normal search goes through
  \<open>MAIN_SEARCH\<close>, \<open>GOOD_CAPTURES\<close>, \<open>KILLERS\<close>, \<open>QUIET\<close>, \<open>BAD_CAPTURES\<close> by steps of one. From the
  last stage of a family the stage with the next integer value is \<open>STOP\<close> for \<open>RECAPTURES\<close>
  only, and is the first stage of the family declared next for the others.
\<close>

theorem advance_within_family:
  "(family_next s \<noteq> STOP \<longrightarrow> advance s = Some (family_next s))
   \<and> (family_next s = STOP \<and> s \<noteq> STOP \<and> s \<noteq> RECAPTURES
        \<longrightarrow> (\<exists>h. advance s = Some h \<and> family_head h))
   \<and> advance RECAPTURES = Some STOP
   \<and> map advance [MAIN_SEARCH, GOOD_CAPTURES, KILLERS, QUIET]
       = map Some [GOOD_CAPTURES, KILLERS, QUIET, BAD_CAPTURES]"
  by (cases s) (simp_all add: advance_simps family_head_def)

theorem advance_within_family_witness:
  "family_next QUIET \<noteq> STOP \<and> advance QUIET = Some BAD_CAPTURES
   \<and> family_next BAD_CAPTURES = STOP \<and> (\<exists>h. advance BAD_CAPTURES = Some h \<and> family_head h)"
  using advance_within_family [of QUIET] advance_within_family [of BAD_CAPTURES] by simp

text \<open>
  Claim C10. The dispatch table has exactly \<open>STAGE_NB\<close> entries, and its entry at the value
  of any stage \<open>s\<close>, \<open>STOP\<close> included, is \<open>generate_next_stage\<close> instantiated for \<open>s\<close>.
\<close>

theorem generators_layout:
  "length generators = STAGE_NB \<and> generators ! Stages_value s = generate_next_stage s"
  by (cases s) (simp_all add: generators_def STAGE_NB_def)

section \<open>Properties of the move picker\<close>

lemma generators_nth: "generators ! Stages_value s = generate_next_stage s"
  by (cases s) (simp_all add: generators_def)

lemma yields_moves [simp]: "yields (mp\<lparr>moves := ms\<rparr>) s = yields mp s"
  by (cases s) (auto simp: fun_eq_iff)

lemma yields_stage [simp]: "yields (mp\<lparr>stage := s'\<rparr>) s = yields mp s"
  by (cases s) (auto simp: fun_eq_iff)

lemma yields_badCaptures [simp]: "yields (mp\<lparr>badCaptures := b\<rparr>) s = yields mp s"
  by (cases s) (auto simp: fun_eq_iff)

lemma deferred_upd [simp]:
  "deferred (mp\<lparr>moves := ms\<rparr>) = deferred mp"
  "deferred (mp\<lparr>stage := s'\<rparr>) = deferred mp"
  "deferred (mp\<lparr>badCaptures := b\<rparr>) = deferred mp"
  by (simp_all add: fun_eq_iff deferred_def)

lemma stage_batch_moves [simp]: "stage_batch (mp\<lparr>moves := ms\<rparr>) s = stage_batch mp s"
  by (cases s) simp_all

lemma stage_batch_stage [simp]: "stage_batch (mp\<lparr>stage := s'\<rparr>) s = stage_batch mp s"
  by (cases s) simp_all

lemma stage_batch_badCaptures [simp]:
  "s \<noteq> BAD_CAPTURES \<Longrightarrow> stage_batch (mp\<lparr>badCaptures := b\<rparr>) s = stage_batch mp s"
  by (cases s) simp_all

lemma stage_yield_upd [simp]:
  "stage_yield (mp\<lparr>moves := ms\<rparr>) s = stage_yield mp s"
  "stage_yield (mp\<lparr>stage := s'\<rparr>) s = stage_yield mp s"
  "s \<noteq> BAD_CAPTURES \<Longrightarrow> stage_yield (mp\<lparr>badCaptures := b\<rparr>) s = stage_yield mp s"
  by (simp_all add: stage_yield_def)

lemma remaining_yield:
  assumes "moves mp = m # ms" "yields mp (stage mp) m"
  shows "remaining mp = m # remaining (mp\<lparr>moves := ms\<rparr>)"
  using assms by (cases "stage mp") (auto simp: remaining_def deferred_def)

lemma remaining_skip:
  assumes "moves mp = m # ms" "\<not> yields mp (stage mp) m"
  shows "remaining (skip_move mp m ms) = remaining mp"
  using assms by (cases "stage mp") (auto simp: remaining_def skip_move_def deferred_def)

lemma remaining_generate:
  assumes "moves mp = []"
  shows "remaining (Generator_call (generate_next_stage (stage mp)) mp) = remaining mp"
  using assms by (cases "stage mp") (auto simp: remaining_def stage_yield_def)

lemma next_move_STOP: "stage mp = STOP \<Longrightarrow> next_move mp = (MOVE_NONE, mp)"
  by (subst next_move.simps [of mp]) simp

lemma next_move_empty:
  "stage mp \<noteq> STOP \<Longrightarrow> moves mp = [] \<Longrightarrow>
     next_move mp = next_move (Generator_call (generate_next_stage (stage mp)) mp)"
  by (subst next_move.simps [of mp]) (simp add: generators_nth)

lemma next_move_yield:
  "stage mp \<noteq> STOP \<Longrightarrow> moves mp = m # ms \<Longrightarrow> yields mp (stage mp) m \<Longrightarrow>
     next_move mp = (m, mp\<lparr>moves := ms\<rparr>)"
  by (subst next_move.simps [of mp]) simp

lemma next_move_skip:
  "stage mp \<noteq> STOP \<Longrightarrow> moves mp = m # ms \<Longrightarrow> \<not> yields mp (stage mp) m \<Longrightarrow>
     next_move mp = next_move (skip_move mp m ms)"
  by (subst next_move.simps [of mp]) simp

lemma next_move_remaining:
  "next_move mp = (m, mp1) \<Longrightarrow>
     (case remaining mp of
        [] \<Rightarrow> m = MOVE_NONE \<and> stage mp1 = STOP \<and> remaining mp1 = []
      | x # xs \<Rightarrow> m = x \<and> remaining mp1 = xs)"
proof (induction mp arbitrary: m mp1 rule: next_move.induct)
  case (1 mp)
  show ?case
  proof (cases "stage mp = STOP")
    case True
    with "1.prems" show ?thesis by (simp add: next_move_STOP remaining_def)
  next
    case False
    note ns = False
    show ?thesis
    proof (cases "moves mp")
      case Nil
      have e: "next_move (Generator_call (generators ! Stages_value (stage mp)) mp) = (m, mp1)"
        using "1.prems" next_move_empty [OF ns Nil] by (simp add: generators_nth)
      have g: "remaining (Generator_call (generators ! Stages_value (stage mp)) mp) = remaining mp"
        unfolding generators_nth using Nil by (rule remaining_generate)
      from "1.IH"(1) [OF ns Nil e] show ?thesis
        unfolding g .
    next
      case (Cons x xs)
      show ?thesis
      proof (cases "yields mp (stage mp) x")
        case True
        have "next_move mp = (x, mp\<lparr>moves := xs\<rparr>)"
          using ns Cons True by (rule next_move_yield)
        with "1.prems" have "m = x" "mp1 = mp\<lparr>moves := xs\<rparr>" by simp_all
        then show ?thesis using remaining_yield [OF Cons True] by simp
      next
        case False
        have e: "next_move (skip_move mp x xs) = (m, mp1)"
          using "1.prems" next_move_skip [OF ns Cons False] by simp
        from "1.IH"(2) [OF ns Cons False e] show ?thesis
          unfolding remaining_skip [OF Cons False] .
      qed
    qed
  qed
qed

lemma next_moves_remaining:
  "fst (next_moves n mp) = take n (remaining mp) @ replicate (n - length (remaining mp)) MOVE_NONE"
proof (induction n arbitrary: mp)
  case 0
  show ?case by simp
next
  case (Suc n)
  obtain m mp1 where nm: "next_move mp = (m, mp1)" by (cases "next_move mp")
  obtain ms mp2 where ns: "next_moves n mp1 = (ms, mp2)" by (cases "next_moves n mp1")
  have ms: "ms = take n (remaining mp1) @ replicate (n - length (remaining mp1)) MOVE_NONE"
    using Suc.IH [of mp1] ns by simp
  show ?case
  proof (cases "remaining mp")
    case Nil
    with next_move_remaining [OF nm] have "m = MOVE_NONE" "remaining mp1 = []" by simp_all
    with ms Nil nm ns show ?thesis by simp
  next
    case (Cons x xs)
    with next_move_remaining [OF nm] have "m = x" "remaining mp1 = xs" by simp_all
    with ms Cons nm ns show ?thesis by simp
  qed
qed

lemma stage_after_next_moves:
  "length (remaining mp) < n \<Longrightarrow> stage (snd (next_moves n mp)) = STOP"
proof (induction n arbitrary: mp)
  case 0
  then show ?case by simp
next
  case (Suc n)
  obtain m mp1 where nm: "next_move mp = (m, mp1)" by (cases "next_move mp")
  obtain ms mp2 where ns: "next_moves n mp1 = (ms, mp2)" by (cases "next_moves n mp1")
  show ?case
  proof (cases "remaining mp")
    case Nil
    with next_move_remaining [OF nm] have 1: "stage mp1 = STOP" "remaining mp1 = []" by simp_all
    show ?thesis
    proof (cases n)
      case 0
      with nm 1 show ?thesis by simp
    next
      case (Suc k)
      then have "length (remaining mp1) < n" using 1 by simp
      from Suc.IH [OF this] show ?thesis using nm ns by simp
    qed
  next
    case (Cons x xs)
    with next_move_remaining [OF nm] have "remaining mp1 = xs" by simp
    with Suc.prems Cons have "length (remaining mp1) < n" by simp
    from Suc.IH [OF this] show ?thesis using nm ns by simp
  qed
qed

lemma distinct_killer_slots: "distinct (rev (remdups (rev ks)))"
  by simp

lemma yields_eq:
  "yields mp GOOD_CAPTURES = (\<lambda>m. m \<noteq> ttMove mp \<and> \<not> see (pos mp) m < 0)"
  "yields mp KILLERS = (\<lambda>m. m \<noteq> MOVE_NONE \<and> m \<noteq> ttMove mp \<and> pseudo_legal (pos mp) m
     \<and> m \<notin> set (generate (pos mp) CAPTURES))"
  "yields mp QUIET = (\<lambda>m. m \<noteq> ttMove mp \<and> m \<notin> set (killers mp))"
  "yields mp ALL_EVASIONS = (\<lambda>m. m \<noteq> ttMove mp)"
  "yields mp QCAPTURES_1 = (\<lambda>m. m \<noteq> ttMove mp)"
  "yields mp CHECKS = (\<lambda>m. m \<noteq> ttMove mp)"
  "yields mp QCAPTURES_2 = (\<lambda>m. m \<noteq> ttMove mp)"
  "yields mp PROBCUT_CAPTURES = (\<lambda>m. m \<noteq> ttMove mp \<and> see (pos mp) m > threshold mp)"
  "yields mp RECAPTURES = (\<lambda>m. m \<noteq> ttMove mp \<and> dest_sq (pos mp) m = recaptureSquare mp)"
  by (simp_all add: fun_eq_iff)

lemma deferred_eq: "deferred mp = (\<lambda>m. m \<noteq> ttMove mp \<and> see (pos mp) m < 0)"
  by (simp add: fun_eq_iff deferred_def)

lemma remaining_new_distinct:
  assumes "generation_disjoint p" "family_head s0"
  shows "distinct (remaining (MovePicker_new p s0 ttm k0 k1 cm d sq th))"
proof -
  have ks: "distinct (filter P (rev (remdups (rev [k0, k1, cm]))))" for P
    by (rule distinct_filter) (rule distinct_killer_slots)
  have kset: "set (rev (remdups (rev [k0, k1, cm]))) = {k0, k1, cm}" by auto
  from assms(2) consider "s0 = MAIN_SEARCH" | "s0 = EVASION" | "s0 = QSEARCH_WITH_CHECKS"
    | "s0 = QSEARCH_WITHOUT_CHECKS" | "s0 = PROBCUT" | "s0 = RECAPTURE"
    by (auto simp: family_head_def)
  then show ?thesis
  proof cases
    case 1
    have "remaining (MovePicker_new p MAIN_SEARCH ttm k0 k1 cm d sq th) =
        filter (\<lambda>m. m \<noteq> MOVE_NONE \<and> pseudo_legal p m) [ttm]
        @ filter (\<lambda>m. m \<noteq> ttm \<and> \<not> see p m < 0) (generate p CAPTURES)
        @ filter (\<lambda>m. m \<noteq> MOVE_NONE \<and> m \<noteq> ttm \<and> pseudo_legal p m
                     \<and> m \<notin> set (generate p CAPTURES)) (rev (remdups (rev [k0, k1, cm])))
        @ filter (\<lambda>m. m \<noteq> ttm \<and> m \<notin> set [k0, k1, cm]) (generate p QUIETS)
        @ filter (\<lambda>m. m \<noteq> ttm \<and> see p m < 0) (generate p CAPTURES)"
      by (simp add: remaining_def MovePicker_new_def stage_yield_def deferred_eq yields_eq
          del: remdups.simps rev.simps set_simps)
    moreover have "distinct \<dots>"
      using assms(1) ks unfolding generation_disjoint_def distinct_append
      by (auto simp del: remdups.simps rev.simps simp: kset)
    ultimately show ?thesis using 1 by simp
  next
    case 2
    then show ?thesis using assms(1)
      by (auto simp: remaining_def MovePicker_new_def stage_yield_def generation_disjoint_def
          yields_eq)
  next
    case 3
    then show ?thesis using assms(1)
      by (auto simp: remaining_def MovePicker_new_def stage_yield_def generation_disjoint_def
          yields_eq)
  next
    case 4
    then show ?thesis using assms(1)
      by (auto simp: remaining_def MovePicker_new_def stage_yield_def generation_disjoint_def
          yields_eq)
  next
    case 5
    then show ?thesis using assms(1)
      by (auto simp: remaining_def MovePicker_new_def stage_yield_def generation_disjoint_def
          yields_eq)
  next
    case 6
    then show ?thesis using assms(1)
      by (auto simp: remaining_def MovePicker_new_def stage_yield_def generation_disjoint_def
          yields_eq)
  qed
qed

text \<open>
  Claim C5. For a picker of any family, over any number of successive calls of
  \<open>next_move\<close>, no move other than \<open>MOVE_NONE\<close> is returned more than once, whether or not
  the hash move or a killer move is also in a generated batch. The move-generation
  collaborator is relied on not to return a move twice in one mode, nor a capture among the
  quiet moves or the quiet checks.
\<close>

theorem no_move_returned_twice:
  assumes "generation_disjoint p" "family_head s0"
  shows "distinct (filter (\<lambda>m. m \<noteq> MOVE_NONE)
           (fst (next_moves n (MovePicker_new p s0 ttm k0 k1 cm d sq th))))"
proof -
  have "distinct (remaining (MovePicker_new p s0 ttm k0 k1 cm d sq th))"
    using assms by (rule remaining_new_distinct)
  then have "distinct (filter (\<lambda>m. m \<noteq> MOVE_NONE)
      (take n (remaining (MovePicker_new p s0 ttm k0 k1 cm d sq th))))"
    by (intro distinct_filter distinct_take)
  then show ?thesis by (simp add: next_moves_remaining)
qed

theorem no_move_returned_twice_witness:
  "distinct (filter (\<lambda>m. m \<noteq> MOVE_NONE)
     (fst (next_moves 10 (MovePicker_new example_position MAIN_SEARCH 21 22 10 99 1 0 0))))"
  using no_move_returned_twice [of example_position MAIN_SEARCH 10 21 22 10 99 1 0 0]
  by (simp add: generation_disjoint_def family_head_def example_position_def)

lemma next_moves_STOP: "stage mp = STOP \<Longrightarrow> next_moves n mp = (replicate n MOVE_NONE, mp)"
  by (induction n) (simp_all add: next_move_STOP)

lemma next_moves_add:
  "next_moves (k + n) mp =
     (case next_moves k mp of (ms1, mp1) \<Rightarrow>
        (case next_moves n mp1 of (ms2, mp2) \<Rightarrow> (ms1 @ ms2, mp2)))"
  by (induction k arbitrary: mp) (simp_all split: prod.splits)

lemma yields_skip_move [simp]: "yields (skip_move mp m ms) s = yields mp s"
  by (simp add: skip_move_def)

lemma skip_move_fields [simp]:
  "stage (skip_move mp m ms) = stage mp"
  "moves (skip_move mp m ms) = ms"
  by (simp_all add: skip_move_def)

lemma next_move_in_stage:
  "moves mp = xs \<Longrightarrow> stage mp \<noteq> STOP \<Longrightarrow> find (yields mp (stage mp)) xs = Some c \<Longrightarrow>
     fst (next_move mp) = c \<and> stage (snd (next_move mp)) = stage mp"
proof (induction xs arbitrary: mp)
  case Nil
  then show ?case by simp
next
  case (Cons x xs)
  show ?case
  proof (cases "yields mp (stage mp) x")
    case True
    then have "next_move mp = (x, mp\<lparr>moves := xs\<rparr>)"
      using Cons.prems(1,2) by (intro next_move_yield) simp_all
    with True Cons.prems(3) show ?thesis by simp
  next
    case False
    have e: "next_move mp = next_move (skip_move mp x xs)"
      using False Cons.prems(1,2) by (intro next_move_skip) simp_all
    have "fst (next_move (skip_move mp x xs)) = c
        \<and> stage (snd (next_move (skip_move mp x xs))) = stage (skip_move mp x xs)"
      using False Cons.prems by (intro Cons.IH) simp_all
    then show ?thesis by (simp add: e)
  qed
qed

text \<open>
  Claim C6. For a picker constructed for the normal search, if the hash move is present
  and pseudo-legal, the first call of \<open>next_move\<close> returns it. If it is absent or not
  pseudo-legal, the first call goes on as from the stage \<open>GOOD_CAPTURES\<close> with the generated
  captures as its batch; the move it returns is then the first generated capture that is
  neither the hash move nor losing, if there is one, and the picker is in \<open>GOOD_CAPTURES\<close>.
\<close>

theorem hash_move_first:
  assumes "mp = MovePicker_new p MAIN_SEARCH ttm k0 k1 cm d sq th"
  shows "(ttm \<noteq> MOVE_NONE \<and> pseudo_legal p ttm \<longrightarrow> fst (next_move mp) = ttm)
    \<and> (ttm = MOVE_NONE \<or> \<not> pseudo_legal p ttm \<longrightarrow>
         next_move mp = next_move (mp\<lparr>stage := GOOD_CAPTURES, moves := generate p CAPTURES\<rparr>)
         \<and> (\<forall>c. find (\<lambda>c. c \<noteq> ttm \<and> \<not> see p c < 0) (generate p CAPTURES) = Some c
               \<longrightarrow> fst (next_move mp) = c \<and> stage (snd (next_move mp)) = GOOD_CAPTURES))"
proof (intro conjI impI allI)
  assume "ttm \<noteq> MOVE_NONE \<and> pseudo_legal p ttm"
  then have "next_move mp = (ttm, mp\<lparr>moves := []\<rparr>)"
    unfolding assms by (intro next_move_yield) (simp_all add: MovePicker_new_def)
  then show "fst (next_move mp) = ttm" by simp
next
  assume a: "ttm = MOVE_NONE \<or> \<not> pseudo_legal p ttm"
  have "next_move mp = next_move (skip_move mp ttm [])"
    using a unfolding assms by (intro next_move_skip) (auto simp: MovePicker_new_def)
  also have "skip_move mp ttm [] = mp\<lparr>moves := []\<rparr>"
    unfolding assms by (simp add: skip_move_def MovePicker_new_def)
  also have "next_move (mp\<lparr>moves := []\<rparr>) =
      next_move (Generator_call (generate_next_stage (stage (mp\<lparr>moves := []\<rparr>)))
        (mp\<lparr>moves := []\<rparr>))"
    unfolding assms by (intro next_move_empty) (simp_all add: MovePicker_new_def)
  also have "Generator_call (generate_next_stage (stage (mp\<lparr>moves := []\<rparr>))) (mp\<lparr>moves := []\<rparr>)
      = mp\<lparr>stage := GOOD_CAPTURES, moves := generate p CAPTURES\<rparr>"
    unfolding assms by (simp add: MovePicker_new_def)
  finally show 3:
    "next_move mp = next_move (mp\<lparr>stage := GOOD_CAPTURES, moves := generate p CAPTURES\<rparr>)" .
  fix c
  assume "find (\<lambda>c. c \<noteq> ttm \<and> \<not> see p c < 0) (generate p CAPTURES) = Some c"
  then have "fst (next_move (mp\<lparr>stage := GOOD_CAPTURES, moves := generate p CAPTURES\<rparr>)) = c
    \<and> stage (snd (next_move (mp\<lparr>stage := GOOD_CAPTURES, moves := generate p CAPTURES\<rparr>)))
      = stage (mp\<lparr>stage := GOOD_CAPTURES, moves := generate p CAPTURES\<rparr>)"
    unfolding assms
    by (intro next_move_in_stage [where xs = "generate p CAPTURES"])
      (simp_all add: MovePicker_new_def yields_eq)
  then show "fst (next_move mp) = c" "stage (snd (next_move mp)) = GOOD_CAPTURES"
    by (simp_all add: 3)
qed

theorem hash_move_first_witness:
  "fst (next_move (MovePicker_new example_position MAIN_SEARCH 21 22 10 99 1 0 0)) = 21
   \<and> fst (next_move (MovePicker_new example_position MAIN_SEARCH 0 22 10 99 1 0 0)) = 10
   \<and> stage (snd (next_move (MovePicker_new example_position MAIN_SEARCH 0 22 10 99 1 0 0)))
       = GOOD_CAPTURES"
proof -
  have 1: "21 \<noteq> MOVE_NONE \<and> pseudo_legal example_position 21"
    by (simp add: example_position_def MOVE_NONE_def)
  have 2: "0 = MOVE_NONE \<or> \<not> pseudo_legal example_position 0"
    by (simp add: MOVE_NONE_def)
  have 3: "find (\<lambda>c. c \<noteq> 0 \<and> \<not> see example_position c < 0)
      (generate example_position CAPTURES) = Some 10"
    by (simp add: example_position_def)
  show ?thesis
    using hash_move_first [OF refl, of 21 example_position 22 10 99 1 0 0]
      hash_move_first [OF refl, of 0 example_position 22 10 99 1 0 0] 1 2 3
    by blast
qed

text \<open>
  Claim C7. Once a picker is in the stage \<open>STOP\<close>, after any number \<open>k\<close> of calls, each of
  the calls that follow returns \<open>MOVE_NONE\<close> and leaves the picker in \<open>STOP\<close>. Every call
  returns: \<open>next_move\<close> is a total function.
\<close>

theorem sentinel_after_STOP:
  assumes "stage (snd (next_moves k mp)) = STOP"
  shows "fst (next_moves (k + n) mp) = fst (next_moves k mp) @ replicate n MOVE_NONE
    \<and> stage (snd (next_moves (k + n) mp)) = STOP"
proof -
  obtain ms1 mp1 where 1: "next_moves k mp = (ms1, mp1)" by (cases "next_moves k mp")
  with assms have "stage mp1 = STOP" by simp
  then have "next_moves n mp1 = (replicate n MOVE_NONE, mp1)" by (rule next_moves_STOP)
  with 1 \<open>stage mp1 = STOP\<close> show ?thesis by (simp add: next_moves_add)
qed

theorem sentinel_after_STOP_witness:
  "fst (next_moves (2 + 3) (MovePicker_new example_position RECAPTURE 0 22 10 99 1 11 0))
     = fst (next_moves 2 (MovePicker_new example_position RECAPTURE 0 22 10 99 1 11 0))
       @ replicate 3 MOVE_NONE"
proof -
  have "length (remaining (MovePicker_new example_position RECAPTURE 0 22 10 99 1 11 0)) < 2"
    by (simp add: remaining_def MovePicker_new_def stage_yield_def example_position_def
        MOVE_NONE_def)
  then have "stage (snd (next_moves 2 (MovePicker_new example_position RECAPTURE 0 22 10 99 1 11 0)))
      = STOP"
    by (rule stage_after_next_moves)
  from sentinel_after_STOP [OF this, of 3] show ?thesis by simp
qed

text \<open>A run of the picker on the example position, with the hash move 21 and the killers 22 and 10.\<close>

lemma example_run:
  "fst (next_moves 10 (MovePicker_new example_position MAIN_SEARCH 21 22 10 99 1 0 0))
     = [21, 10, 12, 22, 20, 23, 11] @ replicate 3 MOVE_NONE"
  by (simp add: next_moves_remaining remaining_def MovePicker_new_def stage_yield_def
      example_position_def MOVE_NONE_def deferred_eq yields_eq)

end
